theory Spec2Isabelle
  imports Complex_Main "HOL-Library.Word" "HOL-Library.Sublist" "HOL-Library.AList"
begin

section \<open>Values\<close>

text \<open>
  The program works on Go's \<^verbatim>\<open>interface{}\<close> values as \<^verbatim>\<open>encoding/json\<close> produces
  them (nil, bool, float64, string, slice, map), plus the \<^verbatim>\<open>int64\<close> that
  \<^verbatim>\<open>FormatString\<close> returns for a timestamp. The type \<open>'f\<close> stands for \<^verbatim>\<open>float64\<close>.
  A \<^verbatim>\<open>map[string]interface{}\<close> is an association list: the order of the list is the
  order in which \<^verbatim>\<open>range\<close> visits the entries, which Go leaves unspecified, so a
  statement about every list is a statement about every iteration order.
\<close>

datatype 'f json =
    JNull
  | JBool bool
  | JFloat 'f
  | JInt "64 word"
  | JString string
  | JArray "'f json list"
  | JObject "(string \<times> 'f json) list"

type_synonym 'f object = "(string \<times> 'f json) list"

text \<open>An unchecked type assertion \<^verbatim>\<open>v.(T)\<close> on a value of another type panics.\<close>

datatype panic = InterfaceConversion

section \<open>Standard library\<close>

subsection \<open>\<^verbatim>\<open>strings.TrimSpace\<close> and \<^verbatim>\<open>strings.Contains\<close>\<close>

text \<open>
  A Go string is a sequence of bytes. \<^verbatim>\<open>strings.TrimSpace\<close> removes the leading and
  trailing runes for which \<^verbatim>\<open>unicode.IsSpace\<close> holds; \<open>whiteSpace\<close> lists their UTF-8
  encodings: tab, line feed, vertical tab, form feed, carriage return, space, U+0085,
  U+00A0, U+1680, U+2000 to U+200A, U+2028, U+2029, U+202F, U+205F and U+3000.
\<close>

definition whiteSpace :: "string list" where
  "whiteSpace =
     [[CHR 0x09], [CHR 0x0A], [CHR 0x0B], [CHR 0x0C], [CHR 0x0D], [CHR 0x20],
      [CHR 0xC2, CHR 0x85], [CHR 0xC2, CHR 0xA0],
      [CHR 0xE1, CHR 0x9A, CHR 0x80],
      [CHR 0xE2, CHR 0x80, CHR 0x80], [CHR 0xE2, CHR 0x80, CHR 0x81],
      [CHR 0xE2, CHR 0x80, CHR 0x82], [CHR 0xE2, CHR 0x80, CHR 0x83],
      [CHR 0xE2, CHR 0x80, CHR 0x84], [CHR 0xE2, CHR 0x80, CHR 0x85],
      [CHR 0xE2, CHR 0x80, CHR 0x86], [CHR 0xE2, CHR 0x80, CHR 0x87],
      [CHR 0xE2, CHR 0x80, CHR 0x88], [CHR 0xE2, CHR 0x80, CHR 0x89],
      [CHR 0xE2, CHR 0x80, CHR 0x8A],
      [CHR 0xE2, CHR 0x80, CHR 0xA8], [CHR 0xE2, CHR 0x80, CHR 0xA9],
      [CHR 0xE2, CHR 0x80, CHR 0xAF],
      [CHR 0xE2, CHR 0x81, CHR 0x9F],
      [CHR 0xE3, CHR 0x80, CHR 0x80]]"

definition leadingSpace :: "string \<Rightarrow> string option" where
  "leadingSpace s = find (\<lambda>e. prefix e s) whiteSpace"

definition trailingSpace :: "string \<Rightarrow> string option" where
  "trailingSpace s = find (\<lambda>e. suffix e s) whiteSpace"

function TrimLeft :: "string \<Rightarrow> string" where
  "TrimLeft s =
     (case leadingSpace s of
        Some e \<Rightarrow> TrimLeft (drop (length e) s)
      | None \<Rightarrow> s)"
  by pat_completeness auto
termination
proof (relation "measure length")
  fix s e
  assume "leadingSpace s = Some e"
  then have "e \<in> set whiteSpace" and "prefix e s"
    by (auto simp: leadingSpace_def find_Some_iff)
  moreover have "\<forall>e \<in> set whiteSpace. e \<noteq> []"
    by (simp add: whiteSpace_def)
  ultimately have "e \<noteq> []" and "prefix e s"
    by blast+
  then have "s \<noteq> []" by auto
  with \<open>e \<noteq> []\<close> show "(drop (length e) s, s) \<in> measure length" by simp
qed simp

function TrimRight :: "string \<Rightarrow> string" where
  "TrimRight s =
     (case trailingSpace s of
        Some e \<Rightarrow> TrimRight (take (length s - length e) s)
      | None \<Rightarrow> s)"
  by pat_completeness auto
termination
proof (relation "measure length")
  fix s e
  assume "trailingSpace s = Some e"
  then have "e \<in> set whiteSpace" and "suffix e s"
    by (auto simp: trailingSpace_def find_Some_iff)
  moreover have "\<forall>e \<in> set whiteSpace. e \<noteq> []"
    by (simp add: whiteSpace_def)
  ultimately have "e \<noteq> []" and "suffix e s"
    by blast+
  then have "s \<noteq> []" by auto
  with \<open>e \<noteq> []\<close> show "(take (length s - length e) s, s) \<in> measure length" by simp
qed simp

declare TrimLeft.simps [simp del] TrimRight.simps [simp del]

definition TrimSpace :: "string \<Rightarrow> string" where
  "TrimSpace s = TrimRight (TrimLeft s)"

text \<open>\<^verbatim>\<open>strings.Contains(s, substr)\<close>: \<open>substr\<close> occurs in \<open>s\<close> as a run of bytes.\<close>

fun Contains :: "string \<Rightarrow> string \<Rightarrow> bool" where
  "Contains [] substr = (substr = [])"
| "Contains (c # s) substr = (prefix substr (c # s) \<or> Contains s substr)"

subsection \<open>\<^verbatim>\<open>time.Parse\<close> with the layout \<^verbatim>\<open>time.RFC3339\<close>\<close>

text \<open>
  A \<^verbatim>\<open>time.Time\<close> is an instant: whole seconds since the Unix epoch, which
  \<^verbatim>\<open>Unix()\<close> returns as an \<^verbatim>\<open>int64\<close>, and the nanoseconds within that
  second. Its location plays no part in \<^verbatim>\<open>Unix()\<close> and is left out.
\<close>

record Time =
  unixSec :: "64 word"
  nsec :: int

definition Unix :: "Time \<Rightarrow> 64 word" where
  "Unix t = unixSec t"

definition isDigit :: "char \<Rightarrow> bool" where
  "isDigit c \<longleftrightarrow> 48 \<le> (of_char c :: nat) \<and> (of_char c :: nat) \<le> 57"

definition digits :: "string \<Rightarrow> nat" where
  "digits s = foldl (\<lambda>x c. x * 10 + (of_char c - 48)) 0 s"

text \<open>A run of decimal digits whose value lies between \<open>lo\<close> and \<open>hi\<close>.\<close>

definition parseUint :: "string \<Rightarrow> nat \<Rightarrow> nat \<Rightarrow> nat option" where
  "parseUint s lo hi =
     (if list_all isDigit s \<and> lo \<le> digits s \<and> digits s \<le> hi then Some (digits s) else None)"

definition isLeap :: "nat \<Rightarrow> bool" where
  "isLeap year \<longleftrightarrow> year mod 4 = 0 \<and> (year mod 100 \<noteq> 0 \<or> year mod 400 = 0)"

definition daysIn :: "nat \<Rightarrow> nat \<Rightarrow> nat" where
  "daysIn month year =
     (if month = 2 then (if isLeap year then 29 else 28)
      else if month = 4 \<or> month = 6 \<or> month = 9 \<or> month = 11 then 30
      else 31)"

definition daysBefore :: "nat \<Rightarrow> nat" where
  "daysBefore month = [0, 31, 59, 90, 120, 151, 181, 212, 243, 273, 304, 334] ! (month - 1)"

text \<open>
  \<^verbatim>\<open>time.Date(year, month, day, hour, min, sec, 0, time.UTC).Unix()\<close> for a date of
  the proleptic Gregorian calendar with \<open>1 \<le> month \<le> 12\<close>: the days from
  0001-01-01 to the date, less the 719162 days from 0001-01-01 to 1970-01-01.
\<close>

definition dateUnix :: "nat \<Rightarrow> nat \<Rightarrow> nat \<Rightarrow> nat \<Rightarrow> nat \<Rightarrow> nat \<Rightarrow> int" where
  "dateUnix year month day hour minute sec =
     (let y = int year - 1;
          d = 365 * y + y div 4 - y div 100 + y div 400
              + int (daysBefore month) + (if isLeap year \<and> 3 \<le> month then 1 else 0)
              + (int day - 1) - 719162
      in d * 86400 + int hour * 3600 + int minute * 60 + int sec)"

text \<open>The 19 bytes \<^verbatim>\<open>2006-01-02T15:04:05\<close>, read as a time of day in UTC.\<close>

definition parseDateTime :: "string \<Rightarrow> int option" where
  "parseDateTime s =
     (case parseUint (take 4 s) 0 9999 of None \<Rightarrow> None | Some year \<Rightarrow>
      case parseUint (take 2 (drop 5 s)) 1 12 of None \<Rightarrow> None | Some month \<Rightarrow>
      case parseUint (take 2 (drop 8 s)) 1 (daysIn month year) of None \<Rightarrow> None | Some day \<Rightarrow>
      case parseUint (take 2 (drop 11 s)) 0 23 of None \<Rightarrow> None | Some hour \<Rightarrow>
      case parseUint (take 2 (drop 14 s)) 0 59 of None \<Rightarrow> None | Some minute \<Rightarrow>
      case parseUint (take 2 (drop 17 s)) 0 59 of None \<Rightarrow> None | Some sec \<Rightarrow>
      if length s = 19 \<and> s ! 4 = CHR ''-'' \<and> s ! 7 = CHR ''-'' \<and> s ! 10 = CHR ''T''
         \<and> s ! 13 = CHR '':'' \<and> s ! 16 = CHR '':''
      then Some (dateUnix year month day hour minute sec)
      else None)"

text \<open>
  An optional fractional second, a period and one to nine digits: its value in
  nanoseconds and the rest of the input.
\<close>

definition parseFraction :: "string \<Rightarrow> (int \<times> string) option" where
  "parseFraction s =
     (if 2 \<le> length s \<and> s ! 0 = CHR ''.'' \<and> isDigit (s ! 1) then
        (let ds = takeWhile isDigit (tl s) in
         if length ds \<le> 9 then Some (int (digits ds) * 10 ^ (9 - length ds), dropWhile isDigit (tl s))
         else None)
      else Some (0, s))"

text \<open>The zone, \<^verbatim>\<open>Z\<close> or \<^verbatim>\<open>+hh:mm\<close> or \<^verbatim>\<open>-hh:mm\<close>: its offset from UTC in seconds.\<close>

definition parseZone :: "string \<Rightarrow> int option" where
  "parseZone s =
     (if s = ''Z'' then Some 0
      else if length s \<noteq> 6 then None
      else
        case parseUint (take 2 (drop 1 s)) 0 23 of None \<Rightarrow> None | Some hr \<Rightarrow>
        case parseUint (take 2 (drop 4 s)) 0 59 of None \<Rightarrow> None | Some mm \<Rightarrow>
        if (s ! 0 = CHR ''-'' \<or> s ! 0 = CHR ''+'') \<and> s ! 3 = CHR '':''
        then Some ((if s ! 0 = CHR ''-'' then - 1 else 1) * int ((hr * 60 + mm) * 60))
        else None)"

text \<open>
  The timestamps that \<^verbatim>\<open>time.Parse(time.RFC3339, s)\<close> accepts in every release of
  Go: four-digit year, two-digit month, day, hour, minute and second in range, an
  upper-case \<^verbatim>\<open>T\<close>, at most nine fractional digits after a period, and a zone
  \<^verbatim>\<open>Z\<close> or \<^verbatim>\<open>\<plusminus>hh:mm\<close> with \<open>hh \<le> 23\<close> and \<open>mm \<le> 59\<close>. The instant is the
  time of day read in UTC less the zone offset.
\<close>

definition parseRFC3339 :: "string \<Rightarrow> Time option" where
  "parseRFC3339 s =
     (if length s < 19 then None
      else
        case parseDateTime (take 19 s) of None \<Rightarrow> None | Some secs \<Rightarrow>
        case parseFraction (drop 19 s) of None \<Rightarrow> None | Some (ns, rest) \<Rightarrow>
        case parseZone rest of None \<Rightarrow> None | Some zoneOffset \<Rightarrow>
        Some \<lparr>unixSec = word_of_int (secs - zoneOffset), nsec = ns\<rparr>)"

text \<open>
  \<^verbatim>\<open>time.Parse(time.RFC3339, value)\<close>, \<open>Some t\<close> when the error is nil. What the
  library does with a string outside \<open>parseRFC3339\<close> differs between releases (a
  one-digit hour, a comma before the fraction, longer fractions, a zone offset of 24
  hours), so that part of the library is the parameter \<open>general\<close>.
\<close>

definition time_Parse :: "(string \<Rightarrow> Time option) \<Rightarrow> string \<Rightarrow> Time option" where
  "time_Parse general value =
     (case parseRFC3339 value of Some t \<Rightarrow> Some t | None \<Rightarrow> general value)"

subsection \<open>\<^verbatim>\<open>strconv.ParseFloat\<close>, \<^verbatim>\<open>os.ReadFile\<close> and \<^verbatim>\<open>json.Unmarshal\<close>\<close>

text \<open>
  These are parameters of the functions that call them:
  \<^item> \<open>parseFloat s\<close> is \<open>Some f\<close> when \<^verbatim>\<open>strconv.ParseFloat(s, 64)\<close> returns \<open>f\<close> with a
    nil error, and \<open>None\<close> when the error is not nil;
  \<^item> \<open>files name\<close> is what \<^verbatim>\<open>os.ReadFile(name)\<close> returns, an error or the bytes;
  \<^item> \<open>unmarshal bytes\<close> is what \<^verbatim>\<open>json.Unmarshal\<close> stores in a
    \<^verbatim>\<open>map[string]interface{}\<close>, or its error.
  Reading a file is an effect: \<open>os_ReadFile\<close> appends the name to the list of the
  reads made so far.
\<close>

definition os_ReadFile ::
  "(string \<Rightarrow> 'r + string) \<Rightarrow> string \<Rightarrow> string list \<Rightarrow> ('r + string) \<times> string list" where
  "os_ReadFile files name reads = (files name, reads @ [name])"

section \<open>The transformation rules\<close>

text \<open>
  \<^verbatim>\<open>TransformRules\<close> maps a tag to a function value. A function value is named by
  the function it holds, and \<open>rule\<close> below calls it.
\<close>

datatype TransformationRule =
    Rule_FormatString
  | Rule_FormatNum
  | Rule_FormatBool
  | Rule_FormatNull
  | Rule_FormatMap
  | Rule_FormatList

definition TransformRules :: "string \<Rightarrow> TransformationRule option" where
  "TransformRules =
     map_of [(''S'', Rule_FormatString), (''N'', Rule_FormatNum), (''BOOL'', Rule_FormatBool),
             (''NULL'', Rule_FormatNull), (''M'', Rule_FormatMap), (''L'', Rule_FormatList)]"

definition sanitizeKey :: "string \<Rightarrow> string" where
  "sanitizeKey key = TrimSpace key"

fun FormatString :: "(string \<Rightarrow> Time option) \<Rightarrow> 'f json \<Rightarrow> panic + 'f json" where
  "FormatString general (JString strVal) =
     (case time_Parse general strVal of
        Some t \<Rightarrow> Inr (JInt (Unix t))
      | None \<Rightarrow> Inr (JString strVal))"
| "FormatString general _ = Inl InterfaceConversion"

fun FormatNum :: "(string \<Rightarrow> 'f option) \<Rightarrow> 'f::zero json \<Rightarrow> panic + 'f json" where
  "FormatNum parseFloat (JString numStr) =
     Inr (JFloat (case parseFloat numStr of Some val \<Rightarrow> val | None \<Rightarrow> 0))"
| "FormatNum parseFloat _ = Inl InterfaceConversion"

fun FormatBool :: "'f json \<Rightarrow> panic + 'f json" where
  "FormatBool (JString boolStr) =
     (if boolStr = ''1'' \<or> boolStr = ''t'' \<or> boolStr = ''true'' then Inr (JBool True)
      else Inr (JBool False))"
| "FormatBool _ = Inl InterfaceConversion"

definition FormatNull :: "'f json \<Rightarrow> panic + 'f json" where
  "FormatNull v = Inr JNull"

text \<open>
  \<^verbatim>\<open>TransformJSON\<close>, \<^verbatim>\<open>FormatMap\<close> and \<^verbatim>\<open>FormatList\<close> call each other through the
  table. The three \<^verbatim>\<open>range\<close> loops are the functions \<open>TransformJSON_range\<close> (over
  \<^verbatim>\<open>inputMap\<close>, carrying \<^verbatim>\<open>output\<close>), \<open>TransformJSON_tags\<close> (over \<^verbatim>\<open>val\<close>,
  carrying \<^verbatim>\<open>outMap\<close>) and \<open>FormatList_range\<close> (over \<^verbatim>\<open>listValue\<close>, carrying
  \<^verbatim>\<open>outList\<close>). An assignment \<^verbatim>\<open>m[k] = v\<close> is \<open>AList.update k v m\<close>. A panic in a
  rule ends the whole call.
\<close>

function
    TransformJSON ::
      "(string \<Rightarrow> 'f option) \<Rightarrow> (string \<Rightarrow> Time option) \<Rightarrow> 'f::zero object \<Rightarrow> panic + 'f object"
and TransformJSON_range ::
      "(string \<Rightarrow> 'f option) \<Rightarrow> (string \<Rightarrow> Time option) \<Rightarrow> 'f object \<Rightarrow> 'f object
        \<Rightarrow> panic + 'f object"
and TransformJSON_tags ::
      "(string \<Rightarrow> 'f option) \<Rightarrow> (string \<Rightarrow> Time option) \<Rightarrow> string \<Rightarrow> 'f object \<Rightarrow> 'f object
        \<Rightarrow> panic + 'f object"
and rule ::
      "(string \<Rightarrow> 'f option) \<Rightarrow> (string \<Rightarrow> Time option) \<Rightarrow> TransformationRule \<Rightarrow> 'f json
        \<Rightarrow> panic + 'f json"
and FormatMap ::
      "(string \<Rightarrow> 'f option) \<Rightarrow> (string \<Rightarrow> Time option) \<Rightarrow> 'f json \<Rightarrow> panic + 'f json"
and FormatList ::
      "(string \<Rightarrow> 'f option) \<Rightarrow> (string \<Rightarrow> Time option) \<Rightarrow> 'f json \<Rightarrow> panic + 'f json"
and FormatList_range ::
      "(string \<Rightarrow> 'f option) \<Rightarrow> (string \<Rightarrow> Time option) \<Rightarrow> 'f json list \<Rightarrow> 'f json list
        \<Rightarrow> panic + 'f json list"
where
  "TransformJSON pf gp inputMap = TransformJSON_range pf gp inputMap []"
| "TransformJSON_range pf gp [] output = Inr output"
| "TransformJSON_range pf gp ((key, value) # rest) output =
     (if sanitizeKey key = [] then TransformJSON_range pf gp rest output
      else
        case (case value of
                JObject val \<Rightarrow> TransformJSON_tags pf gp (sanitizeKey key) val []
              | _ \<Rightarrow> Inr [])
        of Inl p \<Rightarrow> Inl p
         | Inr outMap \<Rightarrow>
             TransformJSON_range pf gp rest
               (if length outMap > 0 then fold (\<lambda>(k, v) out. AList.update k v out) outMap output
                else output))"
| "TransformJSON_tags pf gp key [] outMap = Inr outMap"
| "TransformJSON_tags pf gp key ((k, v) # rest) outMap =
     (case TransformRules (sanitizeKey k) of
        Some r \<Rightarrow>
          (case rule pf gp r v of
             Inl p \<Rightarrow> Inl p
           | Inr x \<Rightarrow> TransformJSON_tags pf gp key rest (AList.update key x outMap))
      | None \<Rightarrow> TransformJSON_tags pf gp key rest outMap)"
| "rule pf gp Rule_FormatString v = FormatString gp v"
| "rule pf gp Rule_FormatNum v = FormatNum pf v"
| "rule pf gp Rule_FormatBool v = FormatBool v"
| "rule pf gp Rule_FormatNull v = FormatNull v"
| "rule pf gp Rule_FormatMap v = FormatMap pf gp v"
| "rule pf gp Rule_FormatList v = FormatList pf gp v"
| "FormatMap pf gp v =
     (case v of
        JObject submap \<Rightarrow>
          (case TransformJSON pf gp submap of Inl p \<Rightarrow> Inl p | Inr m \<Rightarrow> Inr (JObject m))
      | _ \<Rightarrow> Inl InterfaceConversion)"
| "FormatList pf gp v =
     (case v of
        JArray listValue \<Rightarrow>
          (case FormatList_range pf gp listValue [] of
             Inl p \<Rightarrow> Inl p
           | Inr outList \<Rightarrow> Inr (JArray outList))
      | _ \<Rightarrow> Inl InterfaceConversion)"
| "FormatList_range pf gp [] outList = Inr outList"
| "FormatList_range pf gp (listItem # rest) outList =
     (case listItem of
        JObject val \<Rightarrow>
          (case TransformJSON pf gp val of
             Inl p \<Rightarrow> Inl p
           | Inr m \<Rightarrow> FormatList_range pf gp rest (outList @ [JObject m]))
      | _ \<Rightarrow> FormatList_range pf gp rest outList)"
  by pat_completeness auto
termination
  by (relation "measure (\<lambda>x. case x of
        Inl (Inl (pf, gp, m)) \<Rightarrow> 2 * size_list (size_prod (\<lambda>_. 0) size) m + 1
      | Inl (Inr (Inl (pf, gp, m, out))) \<Rightarrow> 2 * size_list (size_prod (\<lambda>_. 0) size) m
      | Inl (Inr (Inr (pf, gp, key, m, out))) \<Rightarrow> 2 * size_list (size_prod (\<lambda>_. 0) size) m
      | Inr (Inl (Inl (pf, gp, r, v))) \<Rightarrow> 2 * size v + 1
      | Inr (Inl (Inr (pf, gp, v))) \<Rightarrow> 2 * size v
      | Inr (Inr (Inl (pf, gp, v))) \<Rightarrow> 2 * size v
      | Inr (Inr (Inr (pf, gp, l, out))) \<Rightarrow> 2 * size_list size l)")
    auto

section \<open>Reading the schema\<close>

text \<open>
  The three errors of \<^verbatim>\<open>ParseSchema\<close>: its own
  \<^verbatim>\<open>errors.New("config file is not a JSON file")\<close>, the error of
  \<^verbatim>\<open>os.ReadFile\<close> and the error of \<^verbatim>\<open>json.Unmarshal\<close>. The result comes with the list
  of the files read.
\<close>

datatype ('r, 'u) schema_error =
    NotJSONFile
  | ReadFailed 'r
  | UnmarshalFailed 'u

definition ParseSchema ::
  "(string \<Rightarrow> 'r + string) \<Rightarrow> (string \<Rightarrow> 'u + 'f object) \<Rightarrow> string \<Rightarrow> string list
    \<Rightarrow> (('r, 'u) schema_error + 'f object) \<times> string list" where
  "ParseSchema files unmarshal fileName reads =
     (if \<not> Contains fileName ''.json'' then (Inl NotJSONFile, reads)
      else
        case os_ReadFile files fileName reads of
          (Inl err, reads') \<Rightarrow> (Inl (ReadFailed err), reads')
        | (Inr fileBytes, reads') \<Rightarrow>
            (case unmarshal fileBytes of
               Inl err \<Rightarrow> (Inl (UnmarshalFailed err), reads')
             | Inr output \<Rightarrow> (Inr output, reads')))"

section \<open>Notions of the specification\<close>

text \<open>
  A tag key is recognized when the table has a rule for the sanitized key. An entry of
  the input is dropped when its sanitized key is empty, its value is not an object, or
  its inner object has no recognized tag key. \<open>objects\<close> keeps the elements of an
  array that are objects.
\<close>

definition recognized :: "'f object \<Rightarrow> bool" where
  "recognized val \<longleftrightarrow> list_ex (\<lambda>(k, v). TransformRules (sanitizeKey k) \<noteq> None) val"

definition dropped :: "string \<Rightarrow> 'f json \<Rightarrow> bool" where
  "dropped key value \<longleftrightarrow>
     sanitizeKey key = [] \<or> (case value of JObject val \<Rightarrow> \<not> recognized val | _ \<Rightarrow> True)"

primrec objects :: "'f json list \<Rightarrow> 'f object list" where
  "objects [] = []"
| "objects (listItem # rest) =
     (case listItem of JObject val \<Rightarrow> val # objects rest | _ \<Rightarrow> objects rest)"

text \<open>
  The shapes the rules assert: a string under \<^verbatim>\<open>S\<close>, \<^verbatim>\<open>N\<close> and \<^verbatim>\<open>BOOL\<close>, an object
  under \<^verbatim>\<open>M\<close>, an array under \<^verbatim>\<open>L\<close>, anything under \<^verbatim>\<open>NULL\<close>, and the same
  again inside the objects that \<^verbatim>\<open>M\<close> and \<^verbatim>\<open>L\<close> hand to \<^verbatim>\<open>TransformJSON\<close>. Only the
  payloads the dispatcher reaches count: an entry with an empty sanitized key, a value
  that is no object and an unrecognized tag are skipped whatever they hold.
\<close>

function
    shaped_fields :: "'f object \<Rightarrow> bool"
and shaped_tags :: "'f object \<Rightarrow> bool"
and shaped_payload :: "TransformationRule \<Rightarrow> 'f json \<Rightarrow> bool"
and shaped_items :: "'f json list \<Rightarrow> bool"
where
  "shaped_fields [] = True"
| "shaped_fields ((key, value) # rest) =
     ((sanitizeKey key = [] \<or> (case value of JObject val \<Rightarrow> shaped_tags val | _ \<Rightarrow> True))
      \<and> shaped_fields rest)"
| "shaped_tags [] = True"
| "shaped_tags ((k, v) # rest) =
     ((case TransformRules (sanitizeKey k) of Some r \<Rightarrow> shaped_payload r v | None \<Rightarrow> True)
      \<and> shaped_tags rest)"
| "shaped_payload Rule_FormatString v = (case v of JString strVal \<Rightarrow> True | _ \<Rightarrow> False)"
| "shaped_payload Rule_FormatNum v = (case v of JString numStr \<Rightarrow> True | _ \<Rightarrow> False)"
| "shaped_payload Rule_FormatBool v = (case v of JString boolStr \<Rightarrow> True | _ \<Rightarrow> False)"
| "shaped_payload Rule_FormatNull v = True"
| "shaped_payload Rule_FormatMap v =
     (case v of JObject submap \<Rightarrow> shaped_fields submap | _ \<Rightarrow> False)"
| "shaped_payload Rule_FormatList v =
     (case v of JArray listValue \<Rightarrow> shaped_items listValue | _ \<Rightarrow> False)"
| "shaped_items [] = True"
| "shaped_items (listItem # rest) =
     ((case listItem of JObject val \<Rightarrow> shaped_fields val | _ \<Rightarrow> True) \<and> shaped_items rest)"
  by pat_completeness auto
termination
  by (relation "measure (\<lambda>x. case x of
        Inl (Inl m) \<Rightarrow> size_list (size_prod (\<lambda>_. 0) size) m
      | Inl (Inr m) \<Rightarrow> size_list (size_prod (\<lambda>_. 0) size) m
      | Inr (Inl (r, v)) \<Rightarrow> size v
      | Inr (Inr l) \<Rightarrow> size_list size l)")
    auto

text \<open>
  A key is clean when it is not empty and has no white space at either end; a value
  has clean keys when every key of every object in it is clean.
\<close>

definition clean :: "string \<Rightarrow> bool" where
  "clean k \<longleftrightarrow> k \<noteq> [] \<and> leadingSpace k = None \<and> trailingSpace k = None"

fun keys_clean :: "'f json \<Rightarrow> bool" where
  "keys_clean (JObject m) = list_all (\<lambda>(k, v). clean k \<and> keys_clean v) m"
| "keys_clean (JArray l) = list_all keys_clean l"
| "keys_clean _ = True"

section \<open>Ground instances of the library parameters\<close>

text \<open>
  For statements at concrete inputs the parameters are instantiated: \<open>decimal\<close> reads a
  non-empty run of digits as a number and rejects every other string, and
  \<open>strict\<close> accepts no timestamp beyond those of \<open>parseRFC3339\<close>.
\<close>

definition decimal :: "string \<Rightarrow> real option" where
  "decimal s = (if s \<noteq> [] \<and> list_all isDigit s then Some (real (digits s)) else None)"

definition strict :: "string \<Rightarrow> Time option" where
  "strict s = None"

section \<open>The scalar rules\<close>

text \<open>
  Claim C5. \<^verbatim>\<open>FormatBool(s)\<close> returns true exactly when \<open>s\<close> is one of the strings
  \<^verbatim>\<open>"1"\<close>, \<^verbatim>\<open>"t"\<close>, \<^verbatim>\<open>"true"\<close>, and false for every other string, among them
  the empty string, \<^verbatim>\<open>"0"\<close>, \<^verbatim>\<open>"True"\<close> and \<^verbatim>\<open>"TRUE"\<close>.
\<close>

theorem FormatBool_true_set:
  "FormatBool (JString s) = Inr (JBool (s \<in> {''1'', ''t'', ''true''}))
   \<and> FormatBool (JString []) = Inr (JBool False)
   \<and> FormatBool (JString ''0'') = Inr (JBool False)
   \<and> FormatBool (JString ''True'') = Inr (JBool False)
   \<and> FormatBool (JString ''TRUE'') = Inr (JBool False)"
  by simp

text \<open>
  Claim C4. For a string that \<^verbatim>\<open>strconv.ParseFloat\<close> parses as the 64-bit float \<open>f\<close>,
  \<^verbatim>\<open>FormatNum\<close> returns \<open>f\<close>; for a string it does not parse, \<^verbatim>\<open>FormatNum\<close> returns
  0.0; the result is a float in every case.
\<close>

theorem FormatNum_float:
  "(parseFloat s = Some f \<longrightarrow> FormatNum parseFloat (JString s) = Inr (JFloat f))
   \<and> (parseFloat s = None \<longrightarrow> FormatNum parseFloat (JString s) = Inr (JFloat 0))
   \<and> (\<exists>x. FormatNum parseFloat (JString s) = Inr (JFloat x))"
  by simp

theorem FormatNum_float_witness:
  "decimal ''42'' = Some 42 \<and> FormatNum decimal (JString ''42'') = Inr (JFloat 42)
   \<and> decimal ''4x'' = None \<and> FormatNum decimal (JString ''4x'') = Inr (JFloat 0)"
proof -
  have a: "decimal ''42'' = Some 42" by code_simp
  have b: "decimal ''4x'' = None" by code_simp
  from a b FormatNum_float [of decimal "''42''" 42] FormatNum_float [of decimal "''4x''"]
  show ?thesis by blast
qed

section \<open>Timestamps\<close>

lemma parseUint_range: "parseUint s lo hi = Some x \<Longrightarrow> lo \<le> x \<and> x \<le> hi"
  by (auto simp: parseUint_def split: if_splits)

lemma daysBefore_le: "1 \<le> month \<Longrightarrow> month \<le> 12 \<Longrightarrow> daysBefore month \<le> 334"
proof -
  assume "1 \<le> month" "month \<le> 12"
  then have "month = 1 \<or> month = 2 \<or> month = 3 \<or> month = 4 \<or> month = 5 \<or> month = 6
      \<or> month = 7 \<or> month = 8 \<or> month = 9 \<or> month = 10 \<or> month = 11 \<or> month = 12"
    by arith
  then show ?thesis by (auto simp: daysBefore_def)
qed

lemma daysIn_le: "daysIn month year \<le> 31"
  by (simp add: daysIn_def)

lemma dateUnix_range:
  assumes "year \<le> 9999" "1 \<le> month" "month \<le> 12" "1 \<le> day" "day \<le> 31"
    "hour \<le> 23" "minute \<le> 59" "sec \<le> 59"
  shows "- 62208000000 \<le> dateUnix year month day hour minute sec"
    and "dateUnix year month day hour minute sec \<le> 253411286399"
proof -
  define y where "y = int year - 1"
  have y: "- 1 \<le> y" "y \<le> 9998" using assms(1) by (simp_all add: y_def)
  have d4: "- 1 \<le> y div 4" "y div 4 \<le> 2499" using y by linarith+
  have d100: "- 1 \<le> y div 100" "y div 100 \<le> 99" using y by linarith+
  have d400: "- 1 \<le> y div 400" "y div 400 \<le> 24" using y by linarith+
  have db: "int (daysBefore month) \<le> 334" using daysBefore_le [OF assms(2,3)] by simp
  define l :: int where "l = (if isLeap year \<and> 3 \<le> month then 1 else 0)"
  have l: "0 \<le> l" "l \<le> 1" by (simp_all add: l_def)
  define d where "d = 365 * y + y div 4 - y div 100 + y div 400
              + int (daysBefore month) + l + (int day - 1) - 719162"
  have dy: "1 \<le> int day" "int day \<le> 31" using assms(4,5) by simp_all
  have dlo: "- 720000 \<le> d" using y d4 d100 d400 l dy unfolding d_def by linarith
  have dhi: "d \<le> 2933000" using y d4 d100 d400 db l dy unfolding d_def by linarith
  have hms: "int hour \<le> 23" "int minute \<le> 59" "int sec \<le> 59" using assms(6,7,8) by simp_all
  have eq: "dateUnix year month day hour minute sec
      = d * 86400 + int hour * 3600 + int minute * 60 + int sec"
    by (simp add: dateUnix_def Let_def d_def y_def l_def)
  show "- 62208000000 \<le> dateUnix year month day hour minute sec"
    using dlo unfolding eq by linarith
  show "dateUnix year month day hour minute sec \<le> 253411286399"
    using dhi hms unfolding eq by linarith
qed

lemma parseDateTime_range:
  assumes "parseDateTime s = Some secs"
  shows "- 62208000000 \<le> secs \<and> secs \<le> 253411286399 \<and> length s = 19"
proof -
  from assms obtain year month day hour minute sec where
    p: "parseUint (take 4 s) 0 9999 = Some year"
       "parseUint (take 2 (drop 5 s)) 1 12 = Some month"
       "parseUint (take 2 (drop 8 s)) 1 (daysIn month year) = Some day"
       "parseUint (take 2 (drop 11 s)) 0 23 = Some hour"
       "parseUint (take 2 (drop 14 s)) 0 59 = Some minute"
       "parseUint (take 2 (drop 17 s)) 0 59 = Some sec"
    and len: "length s = 19"
    and secs: "secs = dateUnix year month day hour minute sec"
    by (auto simp: parseDateTime_def split: option.splits if_splits)
  from p(3) have "1 \<le> day" "day \<le> 31"
    using parseUint_range [OF p(3)] daysIn_le [of month year] by auto
  with p show ?thesis
    using dateUnix_range [of year month day hour minute sec] parseUint_range [OF p(1)]
      parseUint_range [OF p(2)] parseUint_range [OF p(4)] parseUint_range [OF p(5)]
      parseUint_range [OF p(6)] len
    unfolding secs by simp
qed

lemma parseZone_range:
  assumes "parseZone z = Some off"
  shows "- 86340 \<le> off \<and> off \<le> 86340"
proof (cases "z = ''Z''")
  case True
  with assms show ?thesis by (simp add: parseZone_def)
next
  case False
  with assms obtain hr mm where
    p: "parseUint (take 2 (drop 1 z)) 0 23 = Some hr" "parseUint (take 2 (drop 4 z)) 0 59 = Some mm"
    and off: "off = (if z ! 0 = CHR ''-'' then - 1 else 1) * int ((hr * 60 + mm) * 60)"
    by (auto simp: parseZone_def split: option.splits if_splits)
  have "hr \<le> 23" "mm \<le> 59" using parseUint_range [OF p(1)] parseUint_range [OF p(2)] by auto
  then have "(hr * 60 + mm) * 60 \<le> 86340" by simp
  then show ?thesis unfolding off by (auto split: if_splits)
qed

lemma parseZone_head:
  assumes "parseZone z = Some off"
  shows "\<exists>c cs. z = c # cs \<and> \<not> isDigit c \<and> c \<noteq> CHR ''.''"
proof (cases "z = ''Z''")
  case True
  then show ?thesis by (simp add: isDigit_def)
next
  case False
  with assms have len: "length z = 6" and sg: "z ! 0 = CHR ''-'' \<or> z ! 0 = CHR ''+''"
    by (auto simp: parseZone_def split: option.splits if_splits)
  from len obtain c cs where z: "z = c # cs" by (cases z) auto
  with sg show ?thesis by (auto simp: isDigit_def)
qed

lemma sint_unix:
  "- 62208000000 \<le> secs \<Longrightarrow> secs \<le> 253411286399 \<Longrightarrow> - 86340 \<le> off \<Longrightarrow> off \<le> 86340
   \<Longrightarrow> sint (word_of_int (secs - off) :: 64 word) = secs - off"
proof -
  have k: "sint (word_of_int k :: 64 word) = k" if "- (2 ^ 63) \<le> k" "k < 2 ^ 63" for k
    using that by (simp add: sint_sbintrunc' signed_take_bit_int_eq_self)
  assume "- 62208000000 \<le> secs" "secs \<le> 253411286399" "- 86340 \<le> off" "off \<le> 86340"
  then show ?thesis by (intro k) simp_all
qed

lemma parseRFC3339_Some:
  assumes "parseRFC3339 s = Some t"
  shows "\<exists>secs ns rest off.
     parseDateTime (take 19 s) = Some secs \<and> parseFraction (drop 19 s) = Some (ns, rest)
     \<and> parseZone rest = Some off \<and> t = \<lparr>unixSec = word_of_int (secs - off), nsec = ns\<rparr>
     \<and> sint (Unix t) = secs - off"
proof -
  from assms obtain secs ns rest off where
    p: "parseDateTime (take 19 s) = Some secs" "parseFraction (drop 19 s) = Some (ns, rest)"
       "parseZone rest = Some off"
    and t: "t = \<lparr>unixSec = word_of_int (secs - off), nsec = ns\<rparr>"
    by (auto simp: parseRFC3339_def split: option.splits if_splits)
  have "sint (word_of_int (secs - off) :: 64 word) = secs - off"
    using parseDateTime_range [OF p(1)] parseZone_range [OF p(3)] by (intro sint_unix) auto
  with p t show ?thesis by (simp add: Unix_def)
qed


text \<open>
  Claim C3. For a string that \<^verbatim>\<open>time.Parse\<close> accepts as an RFC 3339 timestamp,
  \<^verbatim>\<open>FormatString\<close> returns the Unix epoch seconds of the parsed time as an
  \<^verbatim>\<open>int64\<close>; for a string it rejects, \<^verbatim>\<open>FormatString\<close> returns the string unchanged.
  For the timestamps of \<open>parseRFC3339\<close> the \<^verbatim>\<open>int64\<close>, read as a signed number, is the
  civil time in seconds less the zone offset: nothing wraps around.
\<close>

theorem FormatString_epoch_or_unchanged:
  "(time_Parse general s = Some t \<longrightarrow>
      FormatString general (JString s) = (Inr (JInt (Unix t)) :: panic + 'f json))
   \<and> (time_Parse general s = None \<longrightarrow>
      FormatString general (JString s) = (Inr (JString s) :: panic + 'f json))
   \<and> (parseRFC3339 s = Some t \<longrightarrow>
        (\<exists>secs ns rest off.
           parseDateTime (take 19 s) = Some secs \<and> parseFraction (drop 19 s) = Some (ns, rest)
           \<and> parseZone rest = Some off
           \<and> FormatString general (JString s) = (Inr (JInt (Unix t)) :: panic + 'f json)
           \<and> sint (Unix t) = secs - off))"
proof -
  have "parseRFC3339 s = Some t
    \<Longrightarrow> FormatString general (JString s) = (Inr (JInt (Unix t)) :: panic + 'f json)"
    by (simp add: time_Parse_def)
  then show ?thesis
    using parseRFC3339_Some [of s t] by auto
qed

theorem FormatString_epoch_or_unchanged_witness:
  "time_Parse strict ''2021-01-01T00:00:00Z'' = Some \<lparr>unixSec = 1609459200, nsec = 0\<rparr>
   \<and> FormatString strict (JString ''2021-01-01T00:00:00Z'') = (Inr (JInt 1609459200) :: panic + real json)
   \<and> time_Parse strict ''hello'' = None
   \<and> FormatString strict (JString ''hello'') = (Inr (JString ''hello'') :: panic + real json)"
proof -
  have a: "time_Parse strict ''2021-01-01T00:00:00Z'' = Some \<lparr>unixSec = 1609459200, nsec = 0\<rparr>"
    by code_simp
  have b: "time_Parse strict ''hello'' = None"
    by code_simp
  note th1 = FormatString_epoch_or_unchanged [where ?'f = real, of strict "''2021-01-01T00:00:00Z''"
      "\<lparr>unixSec = 1609459200, nsec = 0\<rparr>"]
  note th2 = FormatString_epoch_or_unchanged [where ?'f = real, of strict "''hello''"]
  have c: "FormatString strict (JString ''2021-01-01T00:00:00Z'') = (Inr (JInt 1609459200) :: panic + real json)"
    using th1 a by (simp only: Unix_def Time.simps)
  have d: "FormatString strict (JString ''hello'') = (Inr (JString ''hello'') :: panic + real json)"
    using th2 b by blast
  from a b c d show ?thesis by blast
qed

lemma parseFraction_zone:
  assumes "parseZone z = Some off"
  shows "parseFraction z = Some (0, z)"
proof -
  from parseZone_head [OF assms] obtain c cs where "z = c # cs" "c \<noteq> CHR ''.''" by blast
  then show ?thesis by (simp add: parseFraction_def)
qed

lemma parseFraction_digits:
  assumes "parseZone z = Some off" "fdigits \<noteq> []" "list_all isDigit fdigits" "length fdigits \<le> 9"
  shows "parseFraction (''.'' @ fdigits @ z)
    = Some (int (digits fdigits) * 10 ^ (9 - length fdigits), z)"
proof -
  from parseZone_head [OF assms(1)] obtain c cs where z: "z = c # cs" "\<not> isDigit c" by blast
  from assms(2) obtain f fs where f: "fdigits = f # fs" by (cases fdigits) auto
  have all: "\<And>x. x \<in> set fdigits \<Longrightarrow> isDigit x"
    using assms(3) by (simp add: list_all_iff)
  have tw: "takeWhile isDigit (fdigits @ z) = fdigits"
    using all z by (simp add: takeWhile_append2)
  have dw: "dropWhile isDigit (fdigits @ z) = z"
    using all z by (simp add: dropWhile_append2)
  have hd: "isDigit f" using all f by simp
  show ?thesis
    using tw dw hd assms(4) by (simp add: parseFraction_def f Let_def)
qed

text \<open>
  Claim C10. For a timestamp with fractional seconds \<^verbatim>\<open>FormatString\<close> returns the
  whole Unix epoch seconds as an integer, the same integer as for the timestamp
  without the fraction, although the parsed time carries the fraction in its
  nanoseconds: \<^verbatim>\<open>2021-01-01T00:00:00.9Z\<close> gives 1609459200.
\<close>

theorem FormatString_drops_fraction:
  assumes "parseDateTime d = Some secs" and "parseZone z = Some off"
    and "fdigits \<noteq> []" and "list_all isDigit fdigits" and "length fdigits \<le> 9"
  shows "time_Parse general (d @ ''.'' @ fdigits @ z)
           = Some \<lparr>unixSec = word_of_int (secs - off),
                    nsec = int (digits fdigits) * 10 ^ (9 - length fdigits)\<rparr>
     \<and> FormatString general (JString (d @ ''.'' @ fdigits @ z))
           = (Inr (JInt (word_of_int (secs - off))) :: panic + 'f json)
     \<and> FormatString general (JString (d @ z))
           = (Inr (JInt (word_of_int (secs - off))) :: panic + 'f json)
     \<and> sint (word_of_int (secs - off) :: 64 word) = secs - off
     \<and> FormatString general (JString ''2021-01-01T00:00:00.9Z'')
           = (Inr (JInt 1609459200) :: panic + 'f json)"
proof -
  have len: "length d = 19" using parseDateTime_range [OF assms(1)] by simp
  have p1: "parseRFC3339 (d @ ''.'' @ fdigits @ z)
      = Some \<lparr>unixSec = word_of_int (secs - off),
               nsec = int (digits fdigits) * 10 ^ (9 - length fdigits)\<rparr>"
    using assms(1,2) parseFraction_digits [OF assms(2-5)] len
    by (simp add: parseRFC3339_def)
  have p2: "parseRFC3339 (d @ z) = Some \<lparr>unixSec = word_of_int (secs - off), nsec = 0\<rparr>"
    using assms(1,2) parseFraction_zone [OF assms(2)] len
    by (simp add: parseRFC3339_def)
  have p3: "parseRFC3339 ''2021-01-01T00:00:00.9Z''
      = Some \<lparr>unixSec = 1609459200, nsec = 900000000\<rparr>"
    by code_simp
  have s: "sint (word_of_int (secs - off) :: 64 word) = secs - off"
    using parseDateTime_range [OF assms(1)] parseZone_range [OF assms(2)] by (intro sint_unix) auto
  from p1 p2 p3 s show ?thesis
    by (simp add: time_Parse_def Unix_def)
qed

theorem FormatString_drops_fraction_witness:
  "parseDateTime ''2021-01-01T00:00:00'' = Some 1609459200
   \<and> parseZone ''Z'' = Some 0
   \<and> time_Parse strict ''2021-01-01T00:00:00.9Z''
        = Some \<lparr>unixSec = 1609459200, nsec = 900000000\<rparr>
   \<and> FormatString strict (JString ''2021-01-01T00:00:00.9Z'')
        = (Inr (JInt 1609459200) :: panic + real json)
   \<and> FormatString strict (JString ''2021-01-01T00:00:00Z'')
        = (Inr (JInt 1609459200) :: panic + real json)"
proof -
  have a: "parseDateTime ''2021-01-01T00:00:00'' = Some 1609459200" by code_simp
  have b: "parseZone ''Z'' = Some 0" by code_simp
  have c: "''9'' \<noteq> []" "list_all isDigit ''9''" "length ''9'' \<le> 9"
    by (simp_all add: isDigit_def)
  have d: "digits ''9'' = 9" by code_simp
  note th = FormatString_drops_fraction [where ?'f = real, OF a b c, of strict]
  from a b d th show ?thesis by (simp add: Unix_def)
qed

section \<open>The file name check\<close>

lemma Contains_sublist: "Contains s substr \<longleftrightarrow> sublist substr s"
  by (induction s) (simp_all add: sublist_Cons_right)

text \<open>
  Claim C7. \<^verbatim>\<open>ParseSchema\<close> returns its not-a-JSON-file error if and only if the file
  name does not contain \<^verbatim>\<open>.json\<close> as a substring, and then it has read no file; a
  name that contains it is read. So \<^verbatim>\<open>schema.txt\<close> is rejected without a read, and
  \<^verbatim>\<open>my.jsonfile\<close>, which does not end in \<^verbatim>\<open>.json\<close>, passes the check.
\<close>

theorem ParseSchema_name_check:
  "(fst (ParseSchema files unmarshal fileName reads) = Inl NotJSONFile
      \<longleftrightarrow> \<not> (\<exists>ps ss. fileName = ps @ ''.json'' @ ss))
   \<and> (\<not> (\<exists>ps ss. fileName = ps @ ''.json'' @ ss)
      \<longrightarrow> snd (ParseSchema files unmarshal fileName reads) = reads)
   \<and> ((\<exists>ps ss. fileName = ps @ ''.json'' @ ss)
      \<longrightarrow> snd (ParseSchema files unmarshal fileName reads) = reads @ [fileName])
   \<and> ParseSchema files unmarshal ''schema.txt'' reads = (Inl NotJSONFile, reads)
   \<and> fst (ParseSchema files unmarshal ''my.jsonfile'' reads) \<noteq> Inl NotJSONFile
   \<and> \<not> suffix ''.json'' ''my.jsonfile''"
proof -
  have c: "Contains fileName ''.json'' \<longleftrightarrow> (\<exists>ps ss. fileName = ps @ ''.json'' @ ss)"
    by (simp add: Contains_sublist sublist_def)
  have 1: "fst (ParseSchema files unmarshal fileName reads) = Inl NotJSONFile
      \<longleftrightarrow> \<not> Contains fileName ''.json''"
    by (auto simp: ParseSchema_def os_ReadFile_def split: sum.splits)
  have 2: "\<not> Contains fileName ''.json''
      \<Longrightarrow> snd (ParseSchema files unmarshal fileName reads) = reads"
    by (simp add: ParseSchema_def)
  have 3: "Contains fileName ''.json''
      \<Longrightarrow> snd (ParseSchema files unmarshal fileName reads) = reads @ [fileName]"
    by (auto simp: ParseSchema_def os_ReadFile_def split: sum.splits)
  have 4: "\<not> Contains ''schema.txt'' ''.json''" by code_simp
  have 5: "Contains ''my.jsonfile'' ''.json''" by code_simp
  have 6: "ParseSchema files unmarshal ''schema.txt'' reads = (Inl NotJSONFile, reads)"
    using 4 by (simp add: ParseSchema_def)
  have 7: "fst (ParseSchema files unmarshal ''my.jsonfile'' reads) \<noteq> Inl NotJSONFile"
    using 5 by (auto simp: ParseSchema_def os_ReadFile_def split: sum.splits)
  have 8: "\<not> suffix ''.json'' ''my.jsonfile''" by code_simp
  from 1 2 3 6 7 8 show ?thesis unfolding c by blast
qed

theorem ParseSchema_name_check_witness:
  "(\<exists>ps ss. ''my.jsonfile'' = ps @ ''.json'' @ ss)
   \<and> snd (ParseSchema (\<lambda>name. Inr ''{}'' :: unit + string)
            (\<lambda>bytes. Inr [] :: unit + real object) ''my.jsonfile'' [])
       = [''my.jsonfile'']
   \<and> \<not> (\<exists>ps ss. ''schema.txt'' = ps @ ''.json'' @ ss)
   \<and> snd (ParseSchema (\<lambda>name. Inr ''{}'' :: unit + string)
            (\<lambda>bytes. Inr [] :: unit + real object) ''schema.txt'' [])
       = []"
proof -
  have a: "\<exists>ps ss. ''my.jsonfile'' = ps @ ''.json'' @ ss"
    by (rule exI [of _ "''my''"], rule exI [of _ "''file''"]) simp
  have "\<not> Contains ''schema.txt'' ''.json''" by code_simp
  then have b: "\<not> (\<exists>ps ss. ''schema.txt'' = ps @ ''.json'' @ ss)"
    by (simp add: Contains_sublist sublist_def)
  from a b
    ParseSchema_name_check [of "\<lambda>name. Inr ''{}'' :: unit + string"
      "\<lambda>bytes. Inr [] :: unit + real object" "''my.jsonfile''" "[]"]
    ParseSchema_name_check [of "\<lambda>name. Inr ''{}'' :: unit + string"
      "\<lambda>bytes. Inr [] :: unit + real object" "''schema.txt''" "[]"]
  show ?thesis by simp
qed

section \<open>Key sanitization\<close>

lemma leadingSpace_SomeD: "leadingSpace s = Some e \<Longrightarrow> e \<in> set whiteSpace \<and> prefix e s"
  by (auto simp: leadingSpace_def find_Some_iff)

lemma trailingSpace_SomeD: "trailingSpace s = Some e \<Longrightarrow> e \<in> set whiteSpace \<and> suffix e s"
  by (auto simp: trailingSpace_def find_Some_iff)

lemma leadingSpace_TrimLeft: "leadingSpace (TrimLeft s) = None"
proof (induction s rule: TrimLeft.induct)
  case (1 s)
  show ?case
  proof (cases "leadingSpace s")
    case None
    then show ?thesis by (subst TrimLeft.simps) simp
  next
    case (Some e)
    with 1 show ?thesis by (subst TrimLeft.simps) simp
  qed
qed

lemma trailingSpace_TrimRight: "trailingSpace (TrimRight s) = None"
proof (induction s rule: TrimRight.induct)
  case (1 s)
  show ?case
  proof (cases "trailingSpace s")
    case None
    then show ?thesis by (subst TrimRight.simps) simp
  next
    case (Some e)
    with 1 show ?thesis by (subst TrimRight.simps) simp
  qed
qed

lemma TrimLeft_decomp: "\<exists>ls. set ls \<subseteq> set whiteSpace \<and> s = concat ls @ TrimLeft s"
proof (induction s rule: TrimLeft.induct)
  case (1 s)
  show ?case
  proof (cases "leadingSpace s")
    case None
    then have "TrimLeft s = s" by (subst TrimLeft.simps) simp
    then have "set [] \<subseteq> set whiteSpace \<and> s = concat [] @ TrimLeft s" by simp
    then show ?thesis by blast
  next
    case (Some e)
    define r where "r = drop (length e) s"
    from Some have e: "e \<in> set whiteSpace" "prefix e s" using leadingSpace_SomeD by blast+
    from Some have t: "TrimLeft s = TrimLeft r"
      unfolding r_def by (subst TrimLeft.simps) simp
    from 1 [OF Some] obtain ls where
      ls: "set ls \<subseteq> set whiteSpace" "r = concat ls @ TrimLeft r"
      unfolding r_def by blast
    from e(2) have s: "s = e @ r" by (auto simp: prefix_def r_def)
    have "concat (e # ls) @ TrimLeft s = e @ (concat ls @ TrimLeft r)" by (simp add: t)
    also have "\<dots> = e @ r" using ls(2) by simp
    finally have "s = concat (e # ls) @ TrimLeft s" using s by simp
    moreover have "set (e # ls) \<subseteq> set whiteSpace" using e(1) ls(1) by simp
    ultimately show ?thesis by blast
  qed
qed

lemma TrimRight_decomp: "\<exists>rs. set rs \<subseteq> set whiteSpace \<and> s = TrimRight s @ concat rs"
proof (induction s rule: TrimRight.induct)
  case (1 s)
  show ?case
  proof (cases "trailingSpace s")
    case None
    then have "TrimRight s = s" by (subst TrimRight.simps) simp
    then have "set [] \<subseteq> set whiteSpace \<and> s = TrimRight s @ concat []" by simp
    then show ?thesis by blast
  next
    case (Some e)
    define r where "r = take (length s - length e) s"
    from Some have e: "e \<in> set whiteSpace" "suffix e s" using trailingSpace_SomeD by blast+
    from Some have t: "TrimRight s = TrimRight r"
      unfolding r_def by (subst TrimRight.simps) simp
    from 1 [OF Some] obtain rs where
      rs: "set rs \<subseteq> set whiteSpace" "r = TrimRight r @ concat rs"
      unfolding r_def by blast
    from e(2) have s: "s = r @ e" by (auto simp: suffix_def r_def)
    have "TrimRight s @ concat (rs @ [e]) = (TrimRight r @ concat rs) @ e" by (simp add: t)
    also have "\<dots> = r @ e" using rs(2) by simp
    finally have "s = TrimRight s @ concat (rs @ [e])" using s by simp
    moreover have "set (rs @ [e]) \<subseteq> set whiteSpace" using e(1) rs(1) by simp
    ultimately show ?thesis by blast
  qed
qed

lemma TrimRight_prefix: "prefix (TrimRight s) s"
  using TrimRight_decomp [of s] by (auto simp: prefix_def)

lemma leadingSpace_prefix:
  assumes "leadingSpace s = None" and "prefix r s"
  shows "leadingSpace r = None"
proof -
  from assms(1) have "\<forall>e \<in> set whiteSpace. \<not> prefix e s"
    by (simp add: leadingSpace_def find_None_iff)
  with assms(2) have "\<forall>e \<in> set whiteSpace. \<not> prefix e r"
    using prefix_order.trans by blast
  then show ?thesis by (simp add: leadingSpace_def find_None_iff)
qed

lemma sanitizeKey_clean:
  "leadingSpace (sanitizeKey key) = None \<and> trailingSpace (sanitizeKey key) = None"
  unfolding sanitizeKey_def TrimSpace_def
  using leadingSpace_prefix [OF leadingSpace_TrimLeft TrimRight_prefix] trailingSpace_TrimRight
  by blast

lemma sanitizeKey_decomp:
  "\<exists>ls rs. set ls \<subseteq> set whiteSpace \<and> set rs \<subseteq> set whiteSpace
     \<and> key = concat ls @ sanitizeKey key @ concat rs"
proof -
  obtain ls where ls: "set ls \<subseteq> set whiteSpace" "key = concat ls @ TrimLeft key"
    using TrimLeft_decomp by blast
  obtain rs where rs: "set rs \<subseteq> set whiteSpace"
      "TrimLeft key = TrimRight (TrimLeft key) @ concat rs"
    using TrimRight_decomp by blast
  from ls(2) rs(2) have "key = concat ls @ sanitizeKey key @ concat rs"
    by (simp add: sanitizeKey_def TrimSpace_def)
  with ls(1) rs(1) show ?thesis by blast
qed

section \<open>The dispatcher\<close>

lemma tags_unrecognized:
  "\<not> recognized val \<Longrightarrow> TransformJSON_tags pf gp key val outMap = Inr outMap"
  by (induction val arbitrary: outMap) (auto simp: recognized_def)

lemma tags_keys:
  "TransformJSON_tags pf gp key val outMap = Inr outMap'
   \<Longrightarrow> fst ` set outMap' = fst ` set outMap \<union> (if recognized val then {key} else {})"
proof (induction val arbitrary: outMap)
  case Nil
  then show ?case by (simp add: recognized_def)
next
  case (Cons kv val)
  obtain k v where kv: "kv = (k, v)" by (cases kv)
  show ?case
  proof (cases "TransformRules (sanitizeKey k)")
    case None
    with Cons kv show ?thesis by (simp add: recognized_def)
  next
    case (Some r)
    with Cons.prems kv obtain x where
      x: "rule pf gp r v = Inr x"
         "TransformJSON_tags pf gp key val (AList.update key x outMap) = Inr outMap'"
      by (auto split: sum.splits)
    from Cons.IH [OF x(2)] Some kv show ?thesis
      by (auto simp: recognized_def dom_update)
  qed
qed

lemma merge_keys:
  "fst ` set (fold (\<lambda>(k, v) out. AList.update k v out) outMap output)
     = fst ` set output \<union> fst ` set outMap"
proof (induction outMap arbitrary: "output")
  case Nil
  then show ?case by simp
next
  case (Cons kv outMap)
  obtain k v where kv: "kv = (k, v)" by (cases kv)
  have "fst ` set (fold (\<lambda>(k, v) out. AList.update k v out) (kv # outMap) output)
      = fst ` set (AList.update k v output) \<union> fst ` set outMap"
    using Cons.IH by (simp add: kv)
  also have "\<dots> = ({k} \<union> fst ` set output) \<union> fst ` set outMap"
    by (simp only: dom_update)
  also have "\<dots> = fst ` set output \<union> fst ` set (kv # outMap)"
    by (simp add: kv)
  finally show ?case .
qed

lemma range_keys:
  "TransformJSON_range pf gp inputMap output = Inr out
   \<Longrightarrow> fst ` set out
       = fst ` set output \<union> sanitizeKey ` {k. \<exists>v. (k, v) \<in> set inputMap \<and> \<not> dropped k v}"
proof (induction inputMap arbitrary: "output")
  case Nil
  then show ?case by simp
next
  case (Cons kv inputMap)
  obtain key "value" where kv: "kv = (key, value)" by (cases kv)
  let ?K = "\<lambda>m. sanitizeKey ` {k. \<exists>v. (k, v) \<in> set m \<and> \<not> dropped k v}"
  have split: "?K (kv # inputMap) = (if dropped key value then {} else {sanitizeKey key}) \<union> ?K inputMap"
    unfolding kv by auto
  show ?case
  proof (cases "sanitizeKey key = []")
    case True
    with Cons.prems kv have "TransformJSON_range pf gp inputMap output = Inr out" by simp
    from Cons.IH [OF this] True show ?thesis unfolding split by (simp add: dropped_def)
  next
    case False
    define res where "res = (case value of
                JObject val \<Rightarrow> TransformJSON_tags pf gp (sanitizeKey key) val []
              | _ \<Rightarrow> Inr [])"
    from Cons.prems kv False obtain outMap where
      om: "res = Inr outMap"
      and rest: "TransformJSON_range pf gp inputMap
               (if length outMap > 0 then fold (\<lambda>(k, v) out. AList.update k v out) outMap output
                else output) = Inr out"
      unfolding res_def by (auto split: sum.splits)
    have keys: "fst ` set outMap = (if dropped key value then {} else {sanitizeKey key})"
    proof (cases "value")
      case (JObject val)
      with om have "TransformJSON_tags pf gp (sanitizeKey key) val [] = Inr outMap"
        by (simp add: res_def)
      from tags_keys [OF this] JObject False show ?thesis by (simp add: dropped_def)
    qed (use om False in \<open>auto simp: res_def dropped_def\<close>)
    have "fst ` set (if length outMap > 0 then fold (\<lambda>(k, v) out. AList.update k v out) outMap output
                else output) = fst ` set output \<union> fst ` set outMap"
      by (simp add: merge_keys)
    with Cons.IH [OF rest] keys show ?thesis unfolding split by auto
  qed
qed

lemma range_plain:
  "\<forall>(k, v) \<in> set inputMap. (case v of JObject val \<Rightarrow> \<not> recognized val | _ \<Rightarrow> True)
   \<Longrightarrow> TransformJSON_range pf gp inputMap output = Inr output"
proof (induction inputMap)
  case Nil
  then show ?case by simp
next
  case (Cons kv inputMap)
  obtain key "value" where kv: "kv = (key, value)" by (cases kv)
  from Cons.prems kv have v: "case value of JObject val \<Rightarrow> \<not> recognized val | _ \<Rightarrow> True"
    by simp
  have "(case value of
                JObject val \<Rightarrow> TransformJSON_tags pf gp (sanitizeKey key) val []
              | _ \<Rightarrow> Inr []) = Inr []"
    using v by (cases "value") (simp_all add: tags_unrecognized)
  with Cons kv show ?case by simp
qed

text \<open>
  Claim C2. The keys of the object \<^verbatim>\<open>TransformJSON\<close> returns are the sanitized keys of
  the entries that are not dropped, where an entry is dropped when its sanitized key
  is empty, its value is not an object, or its inner object has no recognized tag
  key. An input in which no value is an object with a recognized tag key gives the
  empty object.
\<close>

theorem TransformJSON_drops_exactly:
  "(TransformJSON pf gp inputMap = Inr out \<longrightarrow>
      fst ` set out = sanitizeKey ` {k. \<exists>v. (k, v) \<in> set inputMap \<and> \<not> dropped k v})
   \<and> ((\<forall>(k, v) \<in> set inputMap. case v of JObject val \<Rightarrow> \<not> recognized val | _ \<Rightarrow> True)
        \<longrightarrow> TransformJSON pf gp inputMap = Inr [])"
  using range_keys [of pf gp inputMap "[]" out] range_plain [of inputMap pf gp "[]"]
  by simp

theorem TransformJSON_drops_exactly_witness:
  "TransformJSON decimal strict
      [(''  '', JObject [(''S'', JString ''x'')]), (''n'', JFloat 1),
       (''u'', JObject [(''X'', JString ''y'')]), ('' a '', JObject [(''S'', JString ''x'')])]
     = Inr [(''a'', JString ''x'')]
   \<and> fst ` set [(''a'', JString ''x'' :: real json)]
     = sanitizeKey ` {k. \<exists>v. (k, v) \<in> set
          ([(''  '', JObject [(''S'', JString ''x'')]), (''n'', JFloat 1),
            (''u'', JObject [(''X'', JString ''y'')]), ('' a '', JObject [(''S'', JString ''x'')])]
           :: real object)
        \<and> \<not> dropped k v}
   \<and> TransformJSON decimal strict
      [(''a'', JString ''x''), (''b'', JObject [(''c'', JFloat 1)]), (''d'', JArray [])]
     = Inr []"
proof -
  let ?m = "[(''  '', JObject [(''S'', JString ''x'')]), (''n'', JFloat 1),
       (''u'', JObject [(''X'', JString ''y'')]), ('' a '', JObject [(''S'', JString ''x'')])]
       :: real object"
  let ?p = "[(''a'', JString ''x''), (''b'', JObject [(''c'', JFloat 1)]), (''d'', JArray [])]
       :: real object"
  have a: "TransformJSON decimal strict ?m = Inr [(''a'', JString ''x'')]"
    by code_simp
  have c: "sanitizeKey ''c'' = ''c''" by code_simp
  have "\<not> recognized [(''c'', JFloat 1 :: real json)]"
    by (simp add: recognized_def c TransformRules_def)
  then have b: "\<forall>(k, v) \<in> set ?p. case v of JObject val \<Rightarrow> \<not> recognized val | _ \<Rightarrow> True"
    by simp
  note t1 = TransformJSON_drops_exactly [of decimal strict ?m "[(''a'', JString ''x'')]",
      THEN conjunct1, THEN mp, OF a]
  note t2 = TransformJSON_drops_exactly [of decimal strict ?p, THEN conjunct2, THEN mp, OF b]
  show ?thesis by (rule conjI [OF a conjI [OF t1 t2]])
qed

section \<open>Lists\<close>

lemma FormatList_range_iff:
  "FormatList_range pf gp listValue outList = Inr r
   \<longleftrightarrow> (\<exists>ms. r = outList @ map JObject ms
             \<and> map (TransformJSON pf gp) (objects listValue) = map Inr ms)"
proof (induction listValue arbitrary: outList)
  case Nil
  then show ?case by auto
next
  case (Cons listItem rest)
  show ?case
  proof (cases listItem)
    case (JObject val)
    show ?thesis
    proof (cases "TransformJSON pf gp val")
      case (Inl p)
      with JObject show ?thesis by (auto simp: map_eq_Cons_conv)
    next
      case (Inr m)
      have "FormatList_range pf gp (listItem # rest) outList = Inr r
          \<longleftrightarrow> FormatList_range pf gp rest (outList @ [JObject m]) = Inr r"
        using JObject Inr by simp
      also have "\<dots> \<longleftrightarrow> (\<exists>ms. r = (outList @ [JObject m]) @ map JObject ms
             \<and> map (TransformJSON pf gp) (objects rest) = map Inr ms)"
        by (rule Cons.IH)
      also have "\<dots> \<longleftrightarrow> (\<exists>ms. r = outList @ map JObject ms
             \<and> map (TransformJSON pf gp) (objects (listItem # rest)) = map Inr ms)"
      proof
        assume "\<exists>ms. r = (outList @ [JObject m]) @ map JObject ms
             \<and> map (TransformJSON pf gp) (objects rest) = map Inr ms"
        then obtain ms where "r = (outList @ [JObject m]) @ map JObject ms"
          "map (TransformJSON pf gp) (objects rest) = map Inr ms" by blast
        then have "r = outList @ map JObject (m # ms)
           \<and> map (TransformJSON pf gp) (objects (listItem # rest)) = map Inr (m # ms)"
          using JObject Inr by simp
        then show "\<exists>ms. r = outList @ map JObject ms
             \<and> map (TransformJSON pf gp) (objects (listItem # rest)) = map Inr ms" by blast
      next
        assume "\<exists>ms. r = outList @ map JObject ms
             \<and> map (TransformJSON pf gp) (objects (listItem # rest)) = map Inr ms"
        then obtain ms where ms: "r = outList @ map JObject ms"
          "map (TransformJSON pf gp) (objects (listItem # rest)) = map Inr ms" by blast
        from ms(2) JObject Inr obtain ms' where "ms = m # ms'"
          "map (TransformJSON pf gp) (objects rest) = map Inr ms'"
          by (auto simp: Cons_eq_map_conv)
        with ms(1) have "r = (outList @ [JObject m]) @ map JObject ms'
             \<and> map (TransformJSON pf gp) (objects rest) = map Inr ms'" by simp
        then show "\<exists>ms. r = (outList @ [JObject m]) @ map JObject ms
             \<and> map (TransformJSON pf gp) (objects rest) = map Inr ms" by blast
      qed
      finally show ?thesis .
    qed
  qed (use Cons.IH in simp_all)
qed

lemma sanitizeKey_tags:
  "sanitizeKey ''S'' = ''S''" "sanitizeKey ''N'' = ''N''" "sanitizeKey ''M'' = ''M''"
  "sanitizeKey ''L'' = ''L''" "sanitizeKey ''a'' = ''a''" "sanitizeKey ''b'' = ''b''"
  "sanitizeKey '' a '' = ''a''"
  by code_simp+

lemma list_example:
  "TransformJSON pf gp
     [(''a'', JObject [(''L'', JArray
        [JObject [(''M'', JObject [(''b'', JObject [(''N'', JString ''3'')])])],
         JObject [(''S'', JString ''ignored-not-object'')]])])]
   = Inr [(''a'', JArray [JObject [], JObject []])]"
  by (simp add: sanitizeKey_tags TransformRules_def)

text \<open>
  Claim C6, as amended. For an array payload \<^verbatim>\<open>FormatList\<close> returns a new array that
  holds, in order, the result of \<^verbatim>\<open>TransformJSON\<close> for each element that is an
  object; an element that is not an object is left out. Both elements of the array in
  \<^verbatim>\<open>{"a": {"L": [{"M": {"b": {"N": "3"}}}, {"S": "ignored-not-object"}]}}\<close> are
  objects, and \<^verbatim>\<open>TransformJSON\<close> reads each as a map from field names to tagged
  values: under the field \<^verbatim>\<open>M\<close> the key \<^verbatim>\<open>b\<close> is no tag, and the value of the field
  \<^verbatim>\<open>S\<close> is no object. The input transforms to \<^verbatim>\<open>{"a": [{}, {}]}\<close>.
\<close>

theorem FormatList_object_elements:
  "(FormatList pf gp (JArray listValue) = Inr r
      \<longleftrightarrow> (\<exists>ms. r = JArray (map JObject ms)
             \<and> map (TransformJSON pf gp) (objects listValue) = map Inr ms))
   \<and> TransformJSON pf gp
       [(''a'', JObject [(''L'', JArray
          [JObject [(''M'', JObject [(''b'', JObject [(''N'', JString ''3'')])])],
           JObject [(''S'', JString ''ignored-not-object'')]])])]
     = Inr [(''a'', JArray [JObject [], JObject []])]"
proof -
  have "FormatList pf gp (JArray listValue) = Inr r
      \<longleftrightarrow> (\<exists>l. FormatList_range pf gp listValue [] = Inr l \<and> r = JArray l)"
    by (auto split: sum.splits)
  also have "\<dots> \<longleftrightarrow> (\<exists>ms. r = JArray (map JObject ms)
             \<and> map (TransformJSON pf gp) (objects listValue) = map Inr ms)"
    unfolding FormatList_range_iff by auto
  finally show ?thesis using list_example [of pf gp] by blast
qed

theorem FormatList_object_elements_witness:
  "FormatList decimal strict
     (JArray [JObject [(''a'', JObject [(''S'', JString ''x'')])], JString ''s'', JObject []])
   = Inr (JArray (map JObject [[(''a'', JString ''x'')], []]))"
proof -
  have a: "map (TransformJSON decimal strict)
       (objects [JObject [(''a'', JObject [(''S'', JString ''x'')])], JString ''s'', JObject []])
     = map Inr [[(''a'', JString ''x'')], []]"
    by code_simp
  note th = FormatList_object_elements [of decimal strict
      "[JObject [(''a'', JObject [(''S'', JString ''x'')])], JString ''s'', JObject []]"
      "JArray (map JObject [[(''a'', JString ''x'')], []])", THEN conjunct1, THEN iffD2]
  show ?thesis
    by (rule th) (use a in blast)
qed

text \<open>
  Claim C6 as stated gives \<^verbatim>\<open>{"a": [{"b": 3.0}]}\<close> for that input; the code does not
  return it.
\<close>

theorem FormatList_example_counterexample:
  "TransformJSON decimal strict
     [(''a'', JObject [(''L'', JArray
        [JObject [(''M'', JObject [(''b'', JObject [(''N'', JString ''3'')])])],
         JObject [(''S'', JString ''ignored-not-object'')]])])]
   \<noteq> Inr [(''a'', JArray [JObject [(''b'', JFloat 3)]])]"
  unfolding list_example by simp

section \<open>Keys and payloads\<close>

lemma single_S_entry:
  assumes "time_Parse general s = None" and "sanitizeKey key \<noteq> []"
  shows "TransformJSON pf general [(key, JObject [(''S'', JString s)])]
    = Inr [(sanitizeKey key, JString s)]"
  using assms by (simp add: sanitizeKey_tags TransformRules_def)

text \<open>
  Claim C8. \<^verbatim>\<open>sanitizeKey\<close> is a total function that removes the white space around a
  key: the key is white space, then the sanitized key, then white space, and the
  sanitized key neither starts nor ends with white space. The payload of an
  \<^verbatim>\<open>S\<close> tag that is no timestamp is returned as it is, so \<^verbatim>\<open>{" a ": {"S": " val"}}\<close>
  transforms to \<^verbatim>\<open>{"a": " val"}\<close> (given that the library does not take
  \<^verbatim>\<open>" val"\<close> for a timestamp).
\<close>

theorem sanitizeKey_trims_keys_only:
  "(\<exists>ls rs. set ls \<subseteq> set whiteSpace \<and> set rs \<subseteq> set whiteSpace
       \<and> key = concat ls @ sanitizeKey key @ concat rs)
   \<and> leadingSpace (sanitizeKey key) = None
   \<and> trailingSpace (sanitizeKey key) = None
   \<and> (time_Parse general s = None \<and> sanitizeKey key \<noteq> [] \<longrightarrow>
        TransformJSON pf general [(key, JObject [(''S'', JString s)])]
          = (Inr [(sanitizeKey key, JString s)] :: panic + 'f::zero object))
   \<and> (general '' val'' = None \<longrightarrow>
        TransformJSON pf general [('' a '', JObject [(''S'', JString '' val'')])]
          = (Inr [(''a'', JString '' val'')] :: panic + 'f object))"
proof -
  have p: "parseRFC3339 '' val'' = None" by code_simp
  have ex: "general '' val'' = None \<Longrightarrow>
        TransformJSON pf general [('' a '', JObject [(''S'', JString '' val'')])]
          = (Inr [(''a'', JString '' val'')] :: panic + 'f object)"
    using single_S_entry [of general "'' val''" "'' a ''" pf] p
    by (simp add: time_Parse_def sanitizeKey_tags)
  show ?thesis
    using sanitizeKey_decomp [of key] sanitizeKey_clean [of key]
      single_S_entry [of general s key pf] ex
    by blast
qed

theorem sanitizeKey_trims_keys_only_witness:
  "(\<exists>ls rs. set ls \<subseteq> set whiteSpace \<and> set rs \<subseteq> set whiteSpace
       \<and> '' a '' = concat ls @ sanitizeKey '' a '' @ concat rs)
   \<and> sanitizeKey '' a '' = ''a''
   \<and> TransformJSON decimal strict [('' a '', JObject [(''S'', JString '' val'')])]
          = Inr [(''a'', JString '' val'')]"
proof -
  have a: "strict '' val'' = None" by (simp add: strict_def)
  have b: "time_Parse strict '' val'' = None" by code_simp
  note th = sanitizeKey_trims_keys_only [where ?'f = real, of "'' a ''" strict "'' val''" decimal]
  from th a b show ?thesis by (simp add: sanitizeKey_tags)
qed

section \<open>Panics\<close>

lemmas TransformJSON_induct =
  TransformJSON_TransformJSON_range_TransformJSON_tags_rule_FormatMap_FormatList_FormatList_range.induct

lemma returns_iff_shaped:
  "(\<exists>out. TransformJSON pf gp inputMap = Inr out) \<longleftrightarrow> shaped_fields inputMap"
  "(\<exists>out. TransformJSON_range pf gp inputMap output = Inr out) \<longleftrightarrow> shaped_fields inputMap"
  "(\<exists>out. TransformJSON_tags pf gp key val outMap = Inr out) \<longleftrightarrow> shaped_tags val"
  "(\<exists>x. rule pf gp r v = Inr x) \<longleftrightarrow> shaped_payload r v"
  "(\<exists>x. FormatMap pf gp v = Inr x) \<longleftrightarrow> shaped_payload Rule_FormatMap v"
  "(\<exists>x. FormatList pf gp v = Inr x) \<longleftrightarrow> shaped_payload Rule_FormatList v"
  "(\<exists>x. FormatList_range pf gp listValue outList = Inr x) \<longleftrightarrow> shaped_items listValue"
proof (induction pf gp inputMap and pf gp inputMap "output" and pf gp key val outMap
    and pf gp r v and pf gp v and pf gp v and pf gp listValue outList
    rule: TransformJSON_induct)
  case (1 pf gp inputMap)
  then show ?case by simp
next
  case (2 pf gp "output")
  then show ?case by simp
next
  case (3 pf gp key "value" rest "output")
  show ?case
  proof (cases "sanitizeKey key = []")
    case True
    with 3(1) show ?thesis by simp
  next
    case False
    show ?thesis
    proof (cases "value")
      case (JObject val)
      show ?thesis
      proof (cases "TransformJSON_tags pf gp (sanitizeKey key) val []")
        case (Inl p)
        with 3(2) [OF False JObject] False JObject show ?thesis by auto
      next
        case (Inr b)
        with 3(2) [OF False JObject] 3(3) [OF False, of b] False JObject show ?thesis by auto
      qed
    qed (use 3(3) [OF False, of "[]"] False in auto)
  qed
next
  case (4 pf gp key outMap)
  then show ?case by simp
next
  case (5 pf gp key k v rest outMap)
  show ?case
  proof (cases "TransformRules (sanitizeKey k)")
    case None
    with 5(1) show ?thesis by simp
  next
    case (Some r)
    show ?thesis
    proof (cases "rule pf gp r v")
      case (Inl p)
      with 5(2) [OF Some] Some show ?thesis by auto
    next
      case (Inr b)
      with 5(2) [OF Some] 5(3) [OF Some Inr] Some show ?thesis by auto
    qed
  qed
next
  case (6 pf gp v)
  then show ?case by (cases v) (auto split: option.splits)
next
  case (7 pf gp v)
  then show ?case by (cases v) auto
next
  case (8 pf gp v)
  then show ?case by (cases v) auto
next
  case (9 pf gp v)
  then show ?case by (simp add: FormatNull_def)
next
  case (10 pf gp v)
  then show ?case by simp
next
  case (11 pf gp v)
  then show ?case by simp
next
  case (12 pf gp v)
  then show ?case by (cases v) (auto split: sum.splits)
next
  case (13 pf gp v)
  then show ?case by (cases v) (auto split: sum.splits)
next
  case (14 pf gp outList)
  then show ?case by simp
next
  case (15 pf gp listItem rest outList)
  show ?case
  proof (cases listItem)
    case (JObject val)
    show ?thesis
    proof (cases "TransformJSON pf gp val")
      case (Inl p)
      with 15(7) [OF JObject] JObject show ?thesis by auto
    next
      case (Inr b)
      with 15(7) [OF JObject] 15(8) [OF JObject Inr] JObject show ?thesis by auto
    qed
  qed (use 15 in auto)
qed

text \<open>
  Claim C1, as amended. \<^verbatim>\<open>TransformJSON\<close> returns an object exactly when every payload
  it reaches under a recognized tag has the shape the rule asserts (a string under
  \<^verbatim>\<open>S\<close>, \<^verbatim>\<open>N\<close> and \<^verbatim>\<open>BOOL\<close>, an object under \<^verbatim>\<open>M\<close>, an array under \<^verbatim>\<open>L\<close>);
  values that are no objects and unrecognized tag keys never make it fail. With a
  payload of another shape under a recognized tag it panics.
\<close>

theorem TransformJSON_returns_iff_shaped:
  "(shaped_fields inputMap \<longleftrightarrow> (\<exists>out. TransformJSON pf gp inputMap = Inr out))
   \<and> (\<not> shaped_fields inputMap \<longleftrightarrow> TransformJSON pf gp inputMap = Inl InterfaceConversion)"
proof -
  have a: "shaped_fields inputMap \<longleftrightarrow> (\<exists>out. TransformJSON pf gp inputMap = Inr out)"
    using returns_iff_shaped(1) [of pf gp inputMap] by simp
  have b: "(\<nexists>out. TransformJSON pf gp inputMap = Inr out)
      \<longleftrightarrow> TransformJSON pf gp inputMap = Inl InterfaceConversion"
  proof (cases "TransformJSON pf gp inputMap")
    case (Inl p)
    then show ?thesis by (cases p) simp
  next
    case (Inr out)
    then show ?thesis by simp
  qed
  from a b show ?thesis by simp
qed

theorem TransformJSON_returns_iff_shaped_witness:
  "shaped_fields [(''a'', JObject [(''S'', JString ''x'')]), (''n'', JFloat (1 :: real)),
       (''u'', JObject [(''X'', JString ''y'')])]
   \<and> (\<exists>out. TransformJSON decimal strict
        [(''a'', JObject [(''S'', JString ''x'')]), (''n'', JFloat 1),
         (''u'', JObject [(''X'', JString ''y'')])] = Inr out)
   \<and> \<not> shaped_fields [(''a'', JObject [(''M'', JString ''x'' :: real json)])]
   \<and> TransformJSON decimal strict [(''a'', JObject [(''M'', JString ''x'')])]
       = Inl InterfaceConversion"
proof -
  let ?g = "[(''a'', JObject [(''S'', JString ''x'')]), (''n'', JFloat (1 :: real)),
       (''u'', JObject [(''X'', JString ''y'')])]"
  let ?b = "[(''a'', JObject [(''M'', JString ''x'' :: real json)])]"
  have g: "shaped_fields ?g" by code_simp
  have b: "\<not> shaped_fields ?b" by code_simp
  note t1 = TransformJSON_returns_iff_shaped [of ?g decimal strict, THEN conjunct1, THEN iffD1, OF g]
  note t2 = TransformJSON_returns_iff_shaped [of ?b decimal strict, THEN conjunct2, THEN iffD1, OF b]
  show ?thesis by (rule conjI [OF g conjI [OF t1 conjI [OF b t2]]])
qed

text \<open>
  Claim C1 as stated has \<^verbatim>\<open>TransformJSON\<close> return an object also for an \<^verbatim>\<open>S\<close> tag
  whose payload is no string; on \<^verbatim>\<open>{"a": {"S": 5}}\<close> the type assertion of
  \<^verbatim>\<open>FormatString\<close> panics.
\<close>

theorem wrong_shape_counterexample:
  "TransformJSON decimal strict [(''a'', JObject [(''S'', JFloat 5)])] = Inl InterfaceConversion"
  by (simp add: sanitizeKey_tags TransformRules_def)

section \<open>The keys of the output\<close>

lemma clean_sanitizeKey: "sanitizeKey key \<noteq> [] \<Longrightarrow> clean (sanitizeKey key)"
  using sanitizeKey_clean [of key] by (simp add: clean_def)

lemma keys_clean_update:
  "clean k \<Longrightarrow> keys_clean x \<Longrightarrow> keys_clean (JObject m)
   \<Longrightarrow> keys_clean (JObject (AList.update k x m))"
  by (induction m) auto

lemma keys_clean_merge:
  "keys_clean (JObject outMap) \<Longrightarrow> keys_clean (JObject output)
   \<Longrightarrow> keys_clean (JObject (fold (\<lambda>(k, v) out. AList.update k v out) outMap output))"
proof (induction outMap arbitrary: "output")
  case Nil
  then show ?case by simp
next
  case (Cons kv outMap)
  obtain k v where kv: "kv = (k, v)" by (cases kv)
  from Cons.prems kv have "clean k" "keys_clean v" "keys_clean (JObject outMap)" by simp_all
  with Cons.prems(2) have "keys_clean (JObject (AList.update k v output))"
    by (intro keys_clean_update)
  from Cons.IH [OF \<open>keys_clean (JObject outMap)\<close> this] show ?case by (simp add: kv)
qed

lemma results_keys_clean:
  "\<forall>out. TransformJSON pf gp inputMap = Inr out \<longrightarrow> keys_clean (JObject out)"
  "keys_clean (JObject output) \<longrightarrow>
     (\<forall>out. TransformJSON_range pf gp inputMap output = Inr out \<longrightarrow> keys_clean (JObject out))"
  "clean key \<longrightarrow> keys_clean (JObject outMap) \<longrightarrow>
     (\<forall>out. TransformJSON_tags pf gp key val outMap = Inr out \<longrightarrow> keys_clean (JObject out))"
  "\<forall>x. rule pf gp r v = Inr x \<longrightarrow> keys_clean x"
  "\<forall>x. FormatMap pf gp v = Inr x \<longrightarrow> keys_clean x"
  "\<forall>x. FormatList pf gp v = Inr x \<longrightarrow> keys_clean x"
  "list_all keys_clean outList \<longrightarrow>
     (\<forall>x. FormatList_range pf gp listValue outList = Inr x \<longrightarrow> list_all keys_clean x)"
proof (induction pf gp inputMap and pf gp inputMap "output" and pf gp key val outMap
    and pf gp r v and pf gp v and pf gp v and pf gp listValue outList
    rule: TransformJSON_induct)
  case (1 pf gp inputMap)
  then show ?case by simp
next
  case (2 pf gp "output")
  then show ?case by simp
next
  case (3 pf gp key "value" rest "output")
  show ?case
  proof (cases "sanitizeKey key = []")
    case True
    with 3(1) show ?thesis by simp
  next
    case False
    note ck = clean_sanitizeKey [OF False]
    show ?thesis
    proof (intro impI allI)
      fix out
      assume o: "keys_clean (JObject output)"
        and r: "TransformJSON_range pf gp ((key, value) # rest) output = Inr out"
      define res where "res = (case value of
             JObject val \<Rightarrow> TransformJSON_tags pf gp (sanitizeKey key) val []
             | _ \<Rightarrow> Inr [])"
      from r False obtain b where b: "res = Inr b"
        and rest: "TransformJSON_range pf gp rest
               (if 0 < length b
                then fold (\<lambda>(x, y). AList.update x y) b output else output) = Inr out"
        unfolding res_def by (auto split: sum.splits)
      have kb: "keys_clean (JObject b)"
      proof (cases "value")
        case (JObject val)
        with b have "TransformJSON_tags pf gp (sanitizeKey key) val [] = Inr b"
          by (simp add: res_def)
        with 3(2) [OF False JObject] ck show ?thesis by simp
      qed (use b in \<open>auto simp: res_def\<close>)
      have "keys_clean (JObject (if 0 < length b
                then fold (\<lambda>(x, y). AList.update x y) b output else output))"
        using keys_clean_merge [OF kb o] o by simp
      with 3(3) [OF False b [unfolded res_def]] rest show "keys_clean (JObject out)" by blast
    qed
  qed
next
  case (4 pf gp key outMap)
  then show ?case by simp
next
  case (5 pf gp key k v rest outMap)
  show ?case
  proof (cases "TransformRules (sanitizeKey k)")
    case None
    with 5(1) show ?thesis by simp
  next
    case (Some r)
    show ?thesis
    proof (intro impI allI)
      fix out
      assume ck: "clean key" and ko: "keys_clean (JObject outMap)"
        and t: "TransformJSON_tags pf gp key ((k, v) # rest) outMap = Inr out"
      from t Some obtain b where b: "rule pf gp r v = Inr b"
        and rest: "TransformJSON_tags pf gp key rest (AList.update key b outMap) = Inr out"
        by (auto split: sum.splits)
      from 5(2) [OF Some] b have "keys_clean b" by blast
      then have "keys_clean (JObject (AList.update key b outMap))"
        using ck ko by (intro keys_clean_update)
      with 5(3) [OF Some b] ck rest show "keys_clean (JObject out)" by blast
    qed
  qed
next
  case (6 pf gp v)
  then show ?case by (cases v) (auto split: option.splits)
next
  case (7 pf gp v)
  then show ?case by (cases v) auto
next
  case (8 pf gp v)
  then show ?case by (cases v) auto
next
  case (9 pf gp v)
  then show ?case by (simp add: FormatNull_def)
next
  case (10 pf gp v)
  then show ?case by simp
next
  case (11 pf gp v)
  then show ?case by simp
next
  case (12 pf gp v)
  then show ?case by (cases v) (auto split: sum.splits)
next
  case (13 pf gp v)
  then show ?case by (cases v) (auto split: sum.splits)
next
  case (14 pf gp outList)
  then show ?case by simp
next
  case (15 pf gp listItem rest outList)
  show ?case
  proof (cases listItem)
    case (JObject val)
    show ?thesis
    proof (intro impI allI)
      fix x
      assume ko: "list_all keys_clean outList"
        and r: "FormatList_range pf gp (listItem # rest) outList = Inr x"
      from r JObject obtain b where b: "TransformJSON pf gp val = Inr b"
        and rest: "FormatList_range pf gp rest (outList @ [JObject b]) = Inr x"
        by (auto split: sum.splits)
      from 15(7) [OF JObject] b have "keys_clean (JObject b)" by blast
      with ko have "list_all keys_clean (outList @ [JObject b])" by simp
      with 15(8) [OF JObject b] rest show "list_all keys_clean x" by blast
    qed
  next
    case JNull
    from 15(1) [OF JNull] show ?thesis by (simp add: JNull)
  next
    case (JBool x2)
    from 15(2) [OF JBool] show ?thesis by (simp add: JBool)
  next
    case (JFloat x3)
    from 15(3) [OF JFloat] show ?thesis by (simp add: JFloat)
  next
    case (JInt x4)
    from 15(4) [OF JInt] show ?thesis by (simp add: JInt)
  next
    case (JString x5)
    from 15(5) [OF JString] show ?thesis by (simp add: JString)
  next
    case (JArray x6)
    from 15(6) [OF JArray] show ?thesis by (simp add: JArray)
  qed
qed

text \<open>
  Claim C9. Every key of the object \<^verbatim>\<open>TransformJSON\<close> returns, at every depth, also
  inside the objects and arrays the \<^verbatim>\<open>M\<close> and \<^verbatim>\<open>L\<close> rules produce, is a non-empty
  string with no white space at its start or its end.
\<close>

theorem TransformJSON_keys_clean:
  assumes "TransformJSON pf gp inputMap = Inr out"
  shows "keys_clean (JObject out)"
  using results_keys_clean(1) [of pf gp inputMap] assms by blast

theorem TransformJSON_keys_clean_witness:
  "TransformJSON decimal strict
     [('' a '', JObject [(''M'', JObject [('' b '', JObject [(''L'', JArray
        [JObject [('' c '', JObject [(''S'', JString ''x'')])]])])])])]
     = Inr [(''a'', JObject [(''b'', JArray [JObject [(''c'', JString ''x'')]])])]
   \<and> keys_clean (JObject [(''a'', JObject [(''b'', JArray [JObject [(''c'', JString ''x'' :: real json)]])])])"
proof -
  have a: "TransformJSON decimal strict
     [('' a '', JObject [(''M'', JObject [('' b '', JObject [(''L'', JArray
        [JObject [('' c '', JObject [(''S'', JString ''x'')])]])])])])]
     = Inr [(''a'', JObject [(''b'', JArray [JObject [(''c'', JString ''x'')]])])]"
    by code_simp
  show ?thesis by (rule conjI [OF a TransformJSON_keys_clean [OF a]])
qed


end
